theory Spec2Isabelle
  imports Complex_Main "HOL-Library.Stream" "HOL-Library.Multiset"
begin

section \<open>Numbers of the tensor runtime\<close>

text \<open>
  The module computes on one-element tensors of the tensor runtime. A number is modelled
  as an exact real or one of the three special values of the runtime's floating-point
  format: the two infinities and NaN. Finite arithmetic is exact (no rounding, no
  overflow), and zero is unsigned; the special values follow the floating-point rules, so
  that \<open>log 0 = -\<infinity>\<close>, \<open>\<infinity> - \<infinity> = NaN\<close> and \<open>0 * \<infinity> = NaN\<close>, which the code relies on.
  What is proved of the distributions below is decided by these rules; how the runtime
  rounds a finite result is not modelled.
\<close>

datatype xreal = Fin real | PInf | NInf | NaN

instantiation xreal :: "{plus, minus, uminus, times, inverse}"
begin

fun uminus_xreal :: "xreal \<Rightarrow> xreal" where
  "uminus_xreal (Fin a) = Fin (- a)"
| "uminus_xreal PInf = NInf"
| "uminus_xreal NInf = PInf"
| "uminus_xreal NaN = NaN"

fun plus_xreal :: "xreal \<Rightarrow> xreal \<Rightarrow> xreal" where
  "plus_xreal (Fin a) (Fin b) = Fin (a + b)"
| "plus_xreal (Fin a) PInf = PInf"
| "plus_xreal (Fin a) NInf = NInf"
| "plus_xreal PInf (Fin b) = PInf"
| "plus_xreal PInf PInf = PInf"
| "plus_xreal PInf NInf = NaN"
| "plus_xreal NInf (Fin b) = NInf"
| "plus_xreal NInf PInf = NaN"
| "plus_xreal NInf NInf = NInf"
| "plus_xreal NaN y = NaN"
| "plus_xreal x NaN = NaN"

definition minus_xreal :: "xreal \<Rightarrow> xreal \<Rightarrow> xreal" where
  "minus_xreal x y = x + (- y)"

text \<open>An infinity times a finite number takes the sign of the product; times zero it is NaN.\<close>

definition signed_inf :: "real \<Rightarrow> xreal" where
  "signed_inf a = (if a = 0 then NaN else if 0 < a then PInf else NInf)"

fun times_xreal :: "xreal \<Rightarrow> xreal \<Rightarrow> xreal" where
  "times_xreal (Fin a) (Fin b) = Fin (a * b)"
| "times_xreal (Fin a) PInf = signed_inf a"
| "times_xreal (Fin a) NInf = signed_inf (- a)"
| "times_xreal PInf (Fin b) = signed_inf b"
| "times_xreal PInf PInf = PInf"
| "times_xreal PInf NInf = NInf"
| "times_xreal NInf (Fin b) = signed_inf (- b)"
| "times_xreal NInf PInf = NInf"
| "times_xreal NInf NInf = PInf"
| "times_xreal NaN y = NaN"
| "times_xreal x NaN = NaN"

text \<open>\<open>reciprocal\<close>: one over zero is \<open>+\<infinity>\<close> (zero is unsigned here).\<close>

fun inverse_xreal :: "xreal \<Rightarrow> xreal" where
  "inverse_xreal (Fin a) = (if a = 0 then PInf else Fin (1 / a))"
| "inverse_xreal PInf = Fin 0"
| "inverse_xreal NInf = Fin 0"
| "inverse_xreal NaN = NaN"

definition divide_xreal :: "xreal \<Rightarrow> xreal \<Rightarrow> xreal" where
  "divide_xreal x y = x * inverse y"

instance ..

end

text \<open>The comparisons \<open>ge\<close> and \<open>le\<close> of tensors: false as soon as one side is NaN.\<close>

fun le :: "xreal \<Rightarrow> xreal \<Rightarrow> bool" where
  "le (Fin a) (Fin b) = (a \<le> b)"
| "le (Fin a) PInf = True"
| "le (Fin a) NInf = False"
| "le PInf (Fin b) = False"
| "le PInf PInf = True"
| "le PInf NInf = False"
| "le NInf (Fin b) = True"
| "le NInf PInf = True"
| "le NInf NInf = True"
| "le NaN y = False"
| "le x NaN = False"

definition ge :: "xreal \<Rightarrow> xreal \<Rightarrow> bool" where
  "ge x y = le y x"

text \<open>\<open>type_as\<close> on the result of a comparison: the indicator 1 or 0.\<close>

definition type_as :: "bool \<Rightarrow> xreal" where
  "type_as b = (if b then Fin 1 else Fin 0)"

text \<open>\<open>torch.log\<close>: \<open>-\<infinity>\<close> at zero, NaN below zero.\<close>

fun log_t :: "xreal \<Rightarrow> xreal" where
  "log_t (Fin a) = (if 0 < a then Fin (ln a) else if a = 0 then NInf else NaN)"
| "log_t PInf = PInf"
| "log_t NInf = NaN"
| "log_t NaN = NaN"

text \<open>\<open>pow(2)\<close>.\<close>

definition pow2 :: "xreal \<Rightarrow> xreal" where
  "pow2 x = x * x"

text \<open>\<open>util.has_nan_or_inf\<close> on a one-element tensor.\<close>

fun has_nan_or_inf :: "xreal \<Rightarrow> bool" where
  "has_nan_or_inf (Fin a) = False"
| "has_nan_or_inf PInf = True"
| "has_nan_or_inf NInf = True"
| "has_nan_or_inf NaN = True"

section \<open>Normal\<close>

text \<open>
  \<open>torch.erf\<close> and \<open>torch.erfinv\<close> belong to the tensor runtime. On finite arguments
  they are the functions \<open>erf\<close> and \<open>erfinv\<close> on the reals, which the definitions below
  take as arguments and of which nothing is assumed (the runtime's \<open>erf\<close> is rounded and
  returns \<open>\<plusminus>1\<close> far in the tails); on the rest they follow the runtime: \<open>erf (\<plusminus>\<infinity>) = \<plusminus>1\<close>,
  \<open>erfinv (\<plusminus>1) = \<plusminus>\<infinity>\<close>, and \<open>erfinv\<close> is NaN outside \<open>[-1, 1]\<close>.
\<close>

fun erf_t :: "(real \<Rightarrow> real) \<Rightarrow> xreal \<Rightarrow> xreal" where
  "erf_t erf (Fin a) = Fin (erf a)"
| "erf_t erf PInf = Fin 1"
| "erf_t erf NInf = Fin (- 1)"
| "erf_t erf NaN = NaN"

fun erfinv_t :: "(real \<Rightarrow> real) \<Rightarrow> xreal \<Rightarrow> xreal" where
  "erfinv_t erfinv (Fin y) =
     (if - 1 < y \<and> y < 1 then Fin (erfinv y)
      else if y = 1 then PInf
      else if y = - 1 then NInf
      else NaN)"
| "erfinv_t erfinv PInf = NaN"
| "erfinv_t erfinv NInf = NaN"
| "erfinv_t erfinv NaN = NaN"

record Normal =
  N_mean :: xreal
  N_stddev :: xreal

definition Normal_init :: "xreal \<Rightarrow> xreal \<Rightarrow> Normal" where
  "Normal_init mean stddev = \<lparr> N_mean = mean, N_stddev = stddev \<rparr>"

definition Normal_cdf :: "(real \<Rightarrow> real) \<Rightarrow> Normal \<Rightarrow> xreal \<Rightarrow> xreal" where
  "Normal_cdf erf n v =
     Fin 0.5 * (Fin 1 + erf_t erf ((v - N_mean n) * inverse (N_stddev n) / Fin (sqrt 2)))"

definition Normal_icdf :: "(real \<Rightarrow> real) \<Rightarrow> Normal \<Rightarrow> xreal \<Rightarrow> xreal" where
  "Normal_icdf erfinv n v =
     N_mean n + N_stddev n * erfinv_t erfinv (Fin 2 * v - Fin 1) * Fin (sqrt 2)"

text \<open>
  \<open>Distribution.log_prob\<close> of a Normal returns what \<open>log_prob\<close> of the runtime's normal
  distribution, built from the mean and the standard deviation, returns. That function
  belongs to the runtime: it is the argument \<open>torch_log_prob\<close>, applied to the mean, the
  standard deviation and the value.
\<close>

definition Normal_log_prob ::
  "(xreal \<Rightarrow> xreal \<Rightarrow> xreal \<Rightarrow> xreal) \<Rightarrow> Normal \<Rightarrow> xreal \<Rightarrow> xreal" where
  "Normal_log_prob torch_log_prob n v = torch_log_prob (N_mean n) (N_stddev n) v"

text \<open>
  The log-density the runtime computes,
  \<open>-(v - mean)\<^sup>2 / (2 * stddev\<^sup>2) - log stddev - log (sqrt (2 * pi))\<close>, evaluated without
  rounding: one function that can stand for \<open>torch_log_prob\<close>.
\<close>

definition normal_log_density :: "xreal \<Rightarrow> xreal \<Rightarrow> xreal \<Rightarrow> xreal" where
  "normal_log_density mean stddev v =
     - (pow2 (v - mean)) / (Fin 2 * pow2 stddev) - log_t stddev - Fin (ln (sqrt (2 * pi)))"

section \<open>TruncatedNormal\<close>

record TruncatedNormal =
  TN_mean_non_truncated :: xreal
  TN_stddev_non_truncated :: xreal
  TN_low :: xreal
  TN_high :: xreal
  TN_standard_normal_dist :: Normal
  TN_alpha :: xreal
  TN_beta :: xreal
  TN_standard_normal_cdf_alpha :: xreal
  TN_standard_normal_cdf_beta :: xreal
  TN_Z :: xreal
  TN_log_stddev_Z :: xreal

definition TruncatedNormal_init ::
  "(real \<Rightarrow> real) \<Rightarrow> xreal \<Rightarrow> xreal \<Rightarrow> xreal \<Rightarrow> xreal \<Rightarrow> TruncatedNormal" where
  "TruncatedNormal_init erf mean_non_truncated stddev_non_truncated low high =
     (let standard_normal_dist = Normal_init (Fin 0) (Fin 1);
          alpha = (low - mean_non_truncated) / stddev_non_truncated;
          beta = (high - mean_non_truncated) / stddev_non_truncated;
          Z = Normal_cdf erf standard_normal_dist beta - Normal_cdf erf standard_normal_dist alpha
      in \<lparr> TN_mean_non_truncated = mean_non_truncated,
           TN_stddev_non_truncated = stddev_non_truncated,
           TN_low = low,
           TN_high = high,
           TN_standard_normal_dist = standard_normal_dist,
           TN_alpha = alpha,
           TN_beta = beta,
           TN_standard_normal_cdf_alpha = Normal_cdf erf standard_normal_dist alpha,
           TN_standard_normal_cdf_beta = Normal_cdf erf standard_normal_dist beta,
           TN_Z = Z,
           TN_log_stddev_Z = log_t (stddev_non_truncated * Z) \<rparr>)"

definition TruncatedNormal_log_prob ::
  "(xreal \<Rightarrow> xreal \<Rightarrow> xreal \<Rightarrow> xreal) \<Rightarrow> TruncatedNormal \<Rightarrow> xreal \<Rightarrow> xreal" where
  "TruncatedNormal_log_prob torch_log_prob tn v =
     (let lb = type_as (ge v (TN_low tn));
          ub = type_as (le v (TN_high tn))
      in log_t (lb * ub)
         + Normal_log_prob torch_log_prob (TN_standard_normal_dist tn)
             ((v - TN_mean_non_truncated tn) / TN_stddev_non_truncated tn)
         - TN_log_stddev_Z tn)"

text \<open>
  \<open>sample\<close>. The random generator is the stream of its future uniform draws. The loop's
  variables are \<open>attempt_count\<close> and \<open>ret\<close>; \<open>printed\<close> counts how many times the warning
  has been printed. \<open>rand\<close> is drawn before the loop and is not a loop variable.
\<close>

record sample_state =
  attempt_count :: nat
  ret :: xreal
  printed :: nat

definition sample_body :: "(real \<Rightarrow> real) \<Rightarrow> TruncatedNormal \<Rightarrow> xreal \<Rightarrow> sample_state \<Rightarrow> sample_state" where
  "sample_body erfinv tn rand s =
     (let count = attempt_count s + 1
      in \<lparr> attempt_count = count,
           ret = Normal_icdf erfinv (TN_standard_normal_dist tn)
                   (TN_standard_normal_cdf_alpha tn
                    + rand * (TN_standard_normal_cdf_beta tn - TN_standard_normal_cdf_alpha tn))
                 * TN_stddev_non_truncated tn + TN_mean_non_truncated tn,
           printed = (if count = 10000 then printed s + 1 else printed s) \<rparr>)"

partial_function (option) sample_while ::
  "(real \<Rightarrow> real) \<Rightarrow> TruncatedNormal \<Rightarrow> xreal \<Rightarrow> sample_state \<Rightarrow> sample_state option" where
  "sample_while erfinv tn rand s =
     (if has_nan_or_inf (ret s) then sample_while erfinv tn rand (sample_body erfinv tn rand s)
      else Some s)"

text \<open>
  The result of \<open>sample\<close>: the returned value, the number of warnings printed and the
  generator after the call; \<open>None\<close> when the loop never ends.
\<close>

definition TruncatedNormal_sample ::
  "(real \<Rightarrow> real) \<Rightarrow> TruncatedNormal \<Rightarrow> real stream \<Rightarrow> (xreal \<times> nat \<times> real stream) option" where
  "TruncatedNormal_sample erfinv tn rng =
     (let rand = Fin (shd rng); rng' = stl rng
      in case sample_while erfinv tn rand \<lparr> attempt_count = 0, ret = NaN, printed = 0 \<rparr> of
           None \<Rightarrow> None
         | Some s \<Rightarrow> Some (ret s, printed s, rng'))"

section \<open>Empirical\<close>

datatype error = ValueError | IndexError | TypeError | RuntimeError

text \<open>
  The \<open>values\<close> argument is a tensor or a sequence of tensors (\<open>Tensors\<close>), which the
  constructor turns into one tensor, so that every \<open>values[i]\<close> is a tensor object of
  its own, hashed by identity; or a sequence of other Python objects (\<open>Objects\<close>), hashed
  and compared by content. \<open>torch.equal\<close> is equality of tensors and raises a
  \<open>TypeError\<close> on anything else.
\<close>

datatype 'a py_values = Tensors "'a list" | Objects "'a list"

fun items :: "'a py_values \<Rightarrow> 'a list" where
  "items (Tensors vs) = vs"
| "items (Objects vs) = vs"

fun is_tensor :: "'a py_values \<Rightarrow> bool" where
  "is_tensor (Tensors vs) = True"
| "is_tensor (Objects vs) = False"

text \<open>
  Modelled from the spec: \<open>util.logsumexp\<close>, which is not part of the source file, is
  the logarithm of the sum of the exponentials.
\<close>

definition logsumexp :: "real list \<Rightarrow> real" where
  "logsumexp xs = ln (sum_list (map exp xs))"

text \<open>
  The dictionary \<open>distribution\<close> is the list of its items in insertion order. The scan
  over the items adds the weight to every key equal to the value and records whether
  there was one; a value not found is inserted at the end. The same two functions
  describe \<open>distribution[key] += weight\<close> on a dictionary of objects hashed by content.
\<close>

fun update_equal :: "'a \<Rightarrow> real \<Rightarrow> ('a \<times> real) list \<Rightarrow> ('a \<times> real) list" where
  "update_equal x w [] = []"
| "update_equal x w ((key, value) # d) =
     (if key = x then (key, value + w) else (key, value)) # update_equal x w d"

fun found_equal :: "'a \<Rightarrow> ('a \<times> real) list \<Rightarrow> bool" where
  "found_equal x [] = False"
| "found_equal x ((key, value) # d) = (key = x \<or> found_equal x d)"

definition add_value :: "('a \<times> real) list \<Rightarrow> 'a \<times> real \<Rightarrow> ('a \<times> real) list" where
  "add_value d xw =
     (case xw of (x, w) \<Rightarrow> if found_equal x d then update_equal x w d else d @ [(x, w)])"

definition aggregate :: "'a py_values \<Rightarrow> real list \<Rightarrow> bool \<Rightarrow> ('a \<times> real) list" where
  "aggregate pvalues weights combine_duplicates =
     (if is_tensor pvalues \<and> \<not> combine_duplicates then zip (items pvalues) weights
      else foldl add_value [] (zip (items pvalues) weights))"

text \<open>
  \<open>torch.sort(weights, descending=True)\<close> belongs to the runtime and leaves the order of
  equal weights open. The constructor takes the function \<open>srt\<close> that gives the indices
  it returns; \<open>sorts_descending\<close> is what the runtime promises of it.
\<close>

definition sorts_descending :: "(real list \<Rightarrow> nat list) \<Rightarrow> bool" where
  "sorts_descending srt =
     (\<forall>ws. mset (srt ws) = mset [0..<length ws] \<and>
           sorted_wrt (\<lambda>a b. a \<ge> b) (map (\<lambda>i. ws ! i) (srt ws)))"

text \<open>One such function: the stable sort.\<close>

definition stable_sort_indices :: "real list \<Rightarrow> nat list" where
  "stable_sort_indices ws = sort_key (\<lambda>i. - (ws ! i)) [0..<length ws]"

record 'a Empirical =
  emp_length :: nat
  emp_values :: "'a list"
  emp_weights :: "real list"
  cache_mean :: "real option"
  cache_mean_unweighted :: "real option"
  cache_variance :: "real option"
  cache_variance_unweighted :: "real option"

text \<open>
  The log-weights the constructor works with: the argument, or the uniform ones when there
  is none; and their normalization.
\<close>

definition default_log_weights :: "nat \<Rightarrow> real list option \<Rightarrow> real list" where
  "default_log_weights n log_weights_arg =
     (case log_weights_arg of None \<Rightarrow> replicate n (- ln (real n)) | Some l \<Rightarrow> l)"

definition normalize :: "real list \<Rightarrow> real list" where
  "normalize log_weights = map (\<lambda>l. exp (l - logsumexp log_weights)) log_weights"

text \<open>The dictionary \<open>distribution\<close> when the loops of the constructor are over.\<close>

definition distribution_of :: "'a py_values \<Rightarrow> real list option \<Rightarrow> bool \<Rightarrow> ('a \<times> real) list" where
  "distribution_of pvalues log_weights_arg combine_duplicates =
     aggregate pvalues
       (normalize (default_log_weights (length (items pvalues)) log_weights_arg))
       combine_duplicates"

text \<open>
  The constructor fails on an empty \<open>values\<close> (the logarithm of the length, \<open>values[0]\<close>
  or \<open>torch.cat\<close> raises), when \<open>weights[i]\<close> is out of range, and when \<open>torch.equal\<close>
  meets an object that is not a tensor. It accepts more log-weights than values.
\<close>

definition Empirical_init ::
  "(real list \<Rightarrow> nat list) \<Rightarrow> 'a py_values \<Rightarrow> real list option \<Rightarrow> bool \<Rightarrow> error + 'a Empirical" where
  "Empirical_init srt pvalues log_weights_arg combine_duplicates =
     (let n = length (items pvalues) in
      if n = 0 then
        Inl (case log_weights_arg of
               None \<Rightarrow> ValueError
             | Some l \<Rightarrow> if is_tensor pvalues then RuntimeError else IndexError)
      else
        let weights = normalize (default_log_weights n log_weights_arg)
        in if weights = [] then Inl IndexError
           else if combine_duplicates \<and> \<not> is_tensor pvalues \<and> 2 \<le> n then Inl TypeError
           else if length weights < n then Inl IndexError
           else
             let distribution = distribution_of pvalues log_weights_arg combine_duplicates;
                 vals = map fst distribution;
                 wts = map snd distribution;
                 indices = srt wts
             in Inr \<lparr> emp_length = length vals,
                      emp_values = map (\<lambda>i. vals ! i) indices,
                      emp_weights = map (\<lambda>i. wts ! i) indices,
                      cache_mean = None,
                      cache_mean_unweighted = None,
                      cache_variance = None,
                      cache_variance_unweighted = None \<rparr>)"

definition Empirical_expectation :: "'a Empirical \<Rightarrow> ('a \<Rightarrow> real) \<Rightarrow> real" where
  "Empirical_expectation e func =
     foldl (\<lambda>r i. r + func (emp_values e ! i) * (emp_weights e ! i)) 0 [0..<emp_length e]"



definition Empirical_mean_unweighted :: "real Empirical \<Rightarrow> real \<times> real Empirical" where
  "Empirical_mean_unweighted e =
     (case cache_mean_unweighted e of
        None \<Rightarrow>
          (let total = foldl (\<lambda>t i. t + emp_values e ! i) 0 [0..<emp_length e];
               m = total / real (emp_length e)
           in (m, e\<lparr>cache_mean_unweighted := Some m\<rparr>))
      | Some m \<Rightarrow> (m, e))"

definition Empirical_variance_unweighted :: "real Empirical \<Rightarrow> real \<times> real Empirical" where
  "Empirical_variance_unweighted e =
     (case cache_variance_unweighted e of
        None \<Rightarrow>
          (case Empirical_mean_unweighted e of (m, e1) \<Rightarrow>
             (let total = foldl (\<lambda>t i. t + (emp_values e1 ! i - m)\<^sup>2) 0 [0..<emp_length e1];
                  v = total / real (emp_length e1)
              in (v, e1\<lparr>cache_variance_unweighted := Some v\<rparr>)))
      | Some v \<Rightarrow> (v, e))"

section \<open>Arithmetic with the special values\<close>

lemma plus_NaN [simp]: "x + NaN = NaN" by (cases x) auto
lemma times_NaN [simp]: "x * NaN = NaN" by (cases x) auto

lemma minus_Fin [simp]:
  "Fin a - Fin b = Fin (a - b)" "PInf - Fin b = PInf" "NInf - Fin b = NInf"
  "Fin a - PInf = NInf" "Fin a - NInf = PInf"  "PInf - NInf = PInf" "NInf - PInf = NInf"
  "PInf - PInf = NaN" "NInf - NInf = NaN" "NaN - x = NaN" "x - NaN = NaN"
  by (simp_all add: minus_xreal_def)

lemma divide_Fin [simp]:
  "s \<noteq> 0 \<Longrightarrow> Fin a / Fin s = Fin (a / s)"
  "s \<noteq> 0 \<Longrightarrow> PInf / Fin s = (if 0 < s then PInf else NInf)"
  "s \<noteq> 0 \<Longrightarrow> NInf / Fin s = (if 0 < s then NInf else PInf)"
  "NaN / x = NaN"
  by (simp_all add: divide_xreal_def signed_inf_def)

section \<open>Properties of TruncatedNormal\<close>

lemma cdf_std [simp]:
  "Normal_cdf erf (Normal_init (Fin 0) (Fin 1)) (Fin a) = Fin ((1 + erf (a / sqrt 2)) / 2)"
  "Normal_cdf erf (Normal_init (Fin 0) (Fin 1)) PInf = Fin 1"
  "Normal_cdf erf (Normal_init (Fin 0) (Fin 1)) NInf = Fin 0"
  "Normal_cdf erf (Normal_init (Fin 0) (Fin 1)) NaN = NaN"
  by (simp_all add: Normal_cdf_def Normal_init_def signed_inf_def divide_xreal_def)

subsection \<open>The log-density\<close>

text \<open>
  What \<open>log_prob\<close> adds up: the logarithm of the indicator of the range, which is \<open>0\<close> or
  \<open>-\<infinity>\<close>, the log-density \<open>a\<close> of the standardized value, and the stored normaliser \<open>b\<close>
  subtracted. Only the rules of the special values decide the outcome.
\<close>

lemma log_t_indicator:
  "log_t (type_as p * type_as q) = (if p \<and> q then Fin 0 else NInf)"
  by (simp add: type_as_def)




lemma std_log_prob_Fin:
  "Normal_log_prob normal_log_density (Normal_init (Fin 0) (Fin 1)) (Fin z)
     = Fin (- (z\<^sup>2) / 2 - ln (sqrt (2 * pi)))"
  by (simp add: Normal_log_prob_def Normal_init_def normal_log_density_def pow2_def
      divide_xreal_def power2_eq_square)




text \<open>
  The mass \<open>Z\<close> is also \<open>0\<close> with \<open>low < high\<close>, as soon as the runtime's \<open>erf\<close> returns the
  same number at both standardized bounds, which a rounded \<open>erf\<close> does far in the tail,
  where it returns \<open>1\<close>. Then \<open>log_prob\<close> is NaN outside the range and \<open>+\<infinity>\<close> inside it.
\<close>

lemma TruncatedNormal_log_prob_saturated:
  assumes "erf (10 / sqrt 2) = 1" "erf (11 / sqrt 2) = 1"
  shows "TruncatedNormal_log_prob normal_log_density
           (TruncatedNormal_init erf (Fin 0) (Fin 1) (Fin 10) (Fin 11)) (Fin 12) = NaN"
    and "TruncatedNormal_log_prob normal_log_density
           (TruncatedNormal_init erf (Fin 0) (Fin 1) (Fin 10) (Fin 11)) (Fin 10.5) = PInf"
  using assms
  by (simp_all add: TruncatedNormal_log_prob_def TruncatedNormal_init_def Let_def ge_def
      log_t_indicator std_log_prob_Fin)

subsection \<open>The sampling loop\<close>

text \<open>The body's result does not depend on the loop state.\<close>
lemma ret_sample_body:
  "ret (sample_body erfinv tn rand s) =
     Normal_icdf erfinv (TN_standard_normal_dist tn)
       (TN_standard_normal_cdf_alpha tn
        + rand * (TN_standard_normal_cdf_beta tn - TN_standard_normal_cdf_alpha tn))
     * TN_stddev_non_truncated tn + TN_mean_non_truncated tn"
  by (simp add: sample_body_def Let_def)

lemma sample_while_Some_not_stuck:
  assumes "sample_while erfinv tn rand s = Some t"
  shows "\<not> (has_nan_or_inf (ret s) \<and> has_nan_or_inf (ret (sample_body erfinv tn rand s)))"
proof (rule sample_while.raw_induct[where
      P = "\<lambda>erfinv tn rand s t.
             \<not> (has_nan_or_inf (ret s) \<and> has_nan_or_inf (ret (sample_body erfinv tn rand s)))",
      OF _ assms])
  fix sw :: "(real \<Rightarrow> real) \<Rightarrow> TruncatedNormal \<Rightarrow> xreal \<Rightarrow> sample_state \<Rightarrow> sample_state option"
    and erfinv tn rand s t
  assume IH: "\<And>erfinv tn rand s t. sw erfinv tn rand s = Some t \<Longrightarrow>
      \<not> (has_nan_or_inf (ret s) \<and> has_nan_or_inf (ret (sample_body erfinv tn rand s)))"
    and step: "(if has_nan_or_inf (ret s) then sw erfinv tn rand (sample_body erfinv tn rand s)
                else Some s) = Some t"
  show "\<not> (has_nan_or_inf (ret s) \<and> has_nan_or_inf (ret (sample_body erfinv tn rand s)))"
  proof
    assume bad: "has_nan_or_inf (ret s) \<and> has_nan_or_inf (ret (sample_body erfinv tn rand s))"
    with step have "sw erfinv tn rand (sample_body erfinv tn rand s) = Some t" by simp
    from IH[OF this] bad show False by (simp add: ret_sample_body)
  qed
qed

lemma sample_while_diverges:
  "has_nan_or_inf (ret s) \<Longrightarrow> has_nan_or_inf (ret (sample_body erfinv tn rand s)) \<Longrightarrow>
   sample_while erfinv tn rand s = None"
  using sample_while_Some_not_stuck[of erfinv tn rand s] by (cases "sample_while erfinv tn rand s") auto

lemma sample_while_first:
  "has_nan_or_inf (ret s) \<Longrightarrow> \<not> has_nan_or_inf (ret (sample_body erfinv tn rand s)) \<Longrightarrow>
   sample_while erfinv tn rand s = Some (sample_body erfinv tn rand s)"
  by (simp add: sample_while.simps[of erfinv tn rand s]
      sample_while.simps[of erfinv tn rand "sample_body erfinv tn rand s"])

lemma sample_cases:
  "TruncatedNormal_sample erfinv tn rng =
     (let v = ret (sample_body erfinv tn (Fin (shd rng)) \<lparr>attempt_count = 0, ret = NaN, printed = 0\<rparr>)
      in if has_nan_or_inf v then None else Some (v, 0, stl rng))"
proof -
  let ?s0 = "\<lparr>attempt_count = 0, ret = NaN, printed = 0\<rparr>"
  let ?v = "ret (sample_body erfinv tn (Fin (shd rng)) ?s0)"
  show ?thesis
  proof (cases "has_nan_or_inf ?v")
    case True
    then have "sample_while erfinv tn (Fin (shd rng)) ?s0 = None"
      by (intro sample_while_diverges) simp_all
    then show ?thesis using True by (simp add: TruncatedNormal_sample_def Let_def)
  next
    case False
    then have "sample_while erfinv tn (Fin (shd rng)) ?s0 = Some (sample_body erfinv tn (Fin (shd rng)) ?s0)"
      by (intro sample_while_first) simp_all
    then show ?thesis using False by (simp add: TruncatedNormal_sample_def Let_def sample_body_def)
  qed
qed


lemma sample_body_iterate:
  "(sample_body erfinv tn rand ^^ n) \<lparr>attempt_count = 0, ret = NaN, printed = 0\<rparr> =
     \<lparr>attempt_count = n,
      ret = (if n = 0 then NaN
             else ret (sample_body erfinv tn rand \<lparr>attempt_count = 0, ret = NaN, printed = 0\<rparr>)),
      printed = (if 10000 \<le> n then 1 else 0)\<rparr>"
proof (induction n)
  case 0
  show ?case by simp
next
  case (Suc n)
  have "(sample_body erfinv tn rand ^^ Suc n) \<lparr>attempt_count = 0, ret = NaN, printed = 0\<rparr> =
        sample_body erfinv tn rand
          ((sample_body erfinv tn rand ^^ n) \<lparr>attempt_count = 0, ret = NaN, printed = 0\<rparr>)"
    by simp
  also note Suc
  finally have e: "(sample_body erfinv tn rand ^^ Suc n) \<lparr>attempt_count = 0, ret = NaN, printed = 0\<rparr> =
        sample_body erfinv tn rand
          \<lparr>attempt_count = n,
           ret = (if n = 0 then NaN
                  else ret (sample_body erfinv tn rand \<lparr>attempt_count = 0, ret = NaN, printed = 0\<rparr>)),
           printed = (if 10000 \<le> n then 1 else 0)\<rparr>" .
  show ?case unfolding e by (simp add: sample_body_def Let_def)
qed

lemma std_icdf_zero:
  "Normal_icdf erfinv (Normal_init (Fin 0) (Fin 1)) (Fin 0) = NInf"
  by (simp add: Normal_icdf_def Normal_init_def signed_inf_def)

lemma failing_value:
  "ret (sample_body erfinv (TruncatedNormal_init erf (Fin 0) (Fin 1) NInf (Fin 0)) (Fin 0) s) = NInf"
  by (simp add: ret_sample_body TruncatedNormal_init_def Let_def std_icdf_zero signed_inf_def)

text \<open>
  C1 asks that a non-finite result be retried with a fresh random draw. The code draws
  \<open>rand\<close> once, before the loop, and every retry recomputes the same value from it. At
  the TruncatedNormal with mean 0, standard deviation 1 and range \<open>[-\<infinity>, 0]\<close>, when the
  first draw is 0 the value is \<open>-\<infinity>\<close> at every attempt, whatever the later draws of the
  generator are: \<open>sample\<close> never returns, the attempts are counted without bound and the
  warning is printed once, at the attempt 10000.
\<close>

theorem TruncatedNormal_sample_never_redraws:
  "TruncatedNormal_sample erfinv (TruncatedNormal_init erf (Fin 0) (Fin 1) NInf (Fin 0)) (0 ## rng) = None
   \<and> ret ((sample_body erfinv (TruncatedNormal_init erf (Fin 0) (Fin 1) NInf (Fin 0)) (Fin 0) ^^ Suc n)
            \<lparr>attempt_count = 0, ret = NaN, printed = 0\<rparr>) = NInf
   \<and> attempt_count ((sample_body erfinv (TruncatedNormal_init erf (Fin 0) (Fin 1) NInf (Fin 0)) (Fin 0) ^^ n)
            \<lparr>attempt_count = 0, ret = NaN, printed = 0\<rparr>) = n
   \<and> printed ((sample_body erfinv (TruncatedNormal_init erf (Fin 0) (Fin 1) NInf (Fin 0)) (Fin 0) ^^ n)
            \<lparr>attempt_count = 0, ret = NaN, printed = 0\<rparr>) = (if 10000 \<le> n then 1 else 0)"
  by (simp add: sample_cases sample_body_iterate failing_value del: funpow.simps)

text \<open>
  At the same distribution a later draw would have given a finite value: with the draw
  \<open>1/2\<close>, \<open>sample\<close> returns at the first attempt.
\<close>

lemma TruncatedNormal_sample_other_draw:
  assumes "erf 0 = 0"
  shows "TruncatedNormal_sample erfinv (TruncatedNormal_init erf (Fin 0) (Fin 1) NInf (Fin 0))
           ((1 / 2) ## rng) = Some (Fin (erfinv (- (1 / 2)) * sqrt 2), 0, rng)"
proof -
  have "Normal_icdf erfinv (Normal_init (Fin 0) (Fin 1)) (Fin (1 / 4))
        = Fin (erfinv (- (1 / 2)) * sqrt 2)"
    by (simp add: Normal_icdf_def Normal_init_def)
  then show ?thesis using assms
    by (simp add: sample_cases ret_sample_body TruncatedNormal_init_def Let_def)
qed

section \<open>Properties of Empirical\<close>

lemma sum_list_exp_pos: "xs \<noteq> [] \<Longrightarrow> 0 < sum_list (map exp (xs::real list))"
  by (induction xs) (auto intro!: add_pos_nonneg sum_list_nonneg)

lemma sum_list_map_divide: "sum_list (map (\<lambda>x. f x / c) xs) = sum_list (map f xs) / (c::real)"
  by (induction xs) (simp_all add: add_divide_distrib)

lemma sum_list_normalize:
  assumes "lw \<noteq> []"
  shows "sum_list (normalize lw) = 1"
proof -
  let ?S = "sum_list (map exp lw)"
  have S: "0 < ?S" using assms by (rule sum_list_exp_pos)
  have "normalize lw = map (\<lambda>l. exp l / ?S) lw"
    using S by (simp add: normalize_def logsumexp_def exp_diff)
  then have "sum_list (normalize lw) = ?S / ?S"
    by (simp only: sum_list_map_divide)
  then show ?thesis using S by simp
qed

lemma length_normalize [simp]: "length (normalize lw) = length lw"
  by (simp add: normalize_def)

lemma length_default_log_weights:
  "length (default_log_weights n a) = (case a of None \<Rightarrow> n | Some l \<Rightarrow> length l)"
  by (simp add: default_log_weights_def split: option.splits)

text \<open>The scan keeps the keys; it finds a value exactly when it is a key.\<close>

lemma map_fst_update_equal [simp]: "map fst (update_equal x w d) = map fst d"
  by (induction d) auto

lemma keys_update_equal [simp]: "fst ` set (update_equal x w d) = fst ` set d"
  using map_fst_update_equal[of x w d] by (metis set_map)

lemma found_equal_iff: "found_equal x d \<longleftrightarrow> x \<in> set (map fst d)"
  by (induction d) auto

lemma sum_update_equal:
  "distinct (map fst d) \<Longrightarrow> x \<in> set (map fst d) \<Longrightarrow>
   sum_list (map snd (update_equal x w d)) = sum_list (map snd d) + w"
proof (induction d)
  case Nil
  then show ?case by simp
next
  case (Cons p d)
  obtain k v where p: "p = (k, v)" by (cases p)
  show ?case
  proof (cases "k = x")
    case True
    with Cons.prems p have "x \<notin> set (map fst d)" by simp
    then have "update_equal x w d = d" by (induction d) auto
    with True p show ?thesis by simp
  next
    case False
    with Cons p show ?thesis by simp
  qed
qed

text \<open>The weight a list of pairs gives to a key.\<close>

lemma map_of_update_equal:
  "distinct (map fst d) \<Longrightarrow>
   map_of (update_equal x w d) k = (if k = x then map_option (\<lambda>v. v + w) (map_of d k) else map_of d k)"
  by (induction d) (auto simp: rev_image_eqI)

lemma distinct_add_value: "distinct (map fst d) \<Longrightarrow> distinct (map fst (add_value d xw))"
  by (cases xw) (simp add: add_value_def found_equal_iff)

lemma keys_add_value: "fst ` set (add_value d xw) = insert (fst xw) (fst ` set d)"
  by (cases xw) (auto simp: add_value_def found_equal_iff)

lemma sum_add_value:
  "distinct (map fst d) \<Longrightarrow> sum_list (map snd (add_value d xw)) = sum_list (map snd d) + snd xw"
  by (cases xw) (simp add: add_value_def found_equal_iff sum_update_equal)

lemma foldl_add_value:
  "distinct (map fst d) \<Longrightarrow>
   distinct (map fst (foldl add_value d xws))
   \<and> fst ` set (foldl add_value d xws) = fst ` set d \<union> fst ` set xws
   \<and> sum_list (map snd (foldl add_value d xws)) = sum_list (map snd d) + sum_list (map snd xws)"
proof (induction xws arbitrary: d)
  case Nil
  then show ?case by simp
next
  case (Cons xw xws)
  from Cons.IH[OF distinct_add_value[OF Cons.prems, of xw]]
  show ?case using Cons.prems by (simp add: keys_add_value sum_add_value)
qed


lemma in_keys: "(k, v) \<in> set d \<Longrightarrow> k \<in> fst ` set d"
  by force

lemma map_of_add_value:
  assumes "distinct (map fst d)"
  shows "map_of (add_value d (x, w)) k =
           (if k = x then Some (case map_of d x of None \<Rightarrow> w | Some v \<Rightarrow> v + w) else map_of d k)"
proof (cases "found_equal x d")
  case True
  then obtain v where "(x, v) \<in> set d" by (auto simp: found_equal_iff)
  with assms have "map_of d x = Some v" by (rule map_of_is_SomeI)
  with True assms show ?thesis by (simp add: add_value_def map_of_update_equal)
next
  case False
  then have "map_of d x = None" by (simp add: found_equal_iff map_of_eq_None_iff)
  with False show ?thesis by (auto simp: add_value_def map_add_def split: option.splits)
qed

lemma map_of_foldl_add_value:
  assumes "distinct (map fst d)"
  shows "map_of (foldl add_value d xws) k =
           (if k \<in> fst ` set d \<union> fst ` set xws
            then Some ((case map_of d k of None \<Rightarrow> 0 | Some v \<Rightarrow> v)
                       + sum_list (map snd (filter (\<lambda>p. fst p = k) xws)))
            else None)"
  using assms
proof (induction xws arbitrary: d)
  case Nil
  then show ?case by (auto simp: map_of_eq_None_iff split: option.splits)
next
  case (Cons xw xws)
  obtain x w where xw: "xw = (x, w)" by (cases xw)
  have dd: "distinct (map fst (add_value d xw))" by (rule distinct_add_value[OF Cons.prems])
  show ?case
    unfolding foldl_Cons Cons.IH[OF dd]
    using Cons.prems
    by (auto simp: xw keys_add_value map_of_add_value map_of_eq_None_iff dest: in_keys
        split: option.splits)
qed

lemma stable_sort_indices_sorts: "sorts_descending stable_sort_indices"
  unfolding sorts_descending_def stable_sort_indices_def
proof (intro allI conjI)
  fix ws :: "real list"
  show "mset (sort_key (\<lambda>i. - (ws ! i)) [0..<length ws]) = mset [0..<length ws]" by simp
  have "sorted (map (\<lambda>i. - (ws ! i)) (sort_key (\<lambda>i. - (ws ! i)) [0..<length ws]))"
    by (rule sorted_sort_key)
  then show "sorted_wrt (\<lambda>a b. b \<le> a) (map ((!) ws) (sort_key (\<lambda>i. - (ws ! i)) [0..<length ws]))"
    by (simp add: sorted_wrt_map sorted_map)
qed

lemma sorted_indices_in_range:
  assumes "sorts_descending srt"
  shows "set (srt ws) = {..<length ws}" "length (srt ws) = length ws"
proof -
  from assms have m: "mset (srt ws) = mset [0..<length ws]" by (simp add: sorts_descending_def)
  from mset_eq_setD[OF m] show "set (srt ws) = {..<length ws}" by (simp add: atLeast0LessThan)
  from mset_eq_length[OF m] show "length (srt ws) = length ws" by simp
qed

lemma mset_reorder:
  assumes "sorts_descending srt" "length xs = length ws"
  shows "mset (map (\<lambda>i. xs ! i) (srt ws)) = mset xs"
proof -
  from assms have m: "mset (srt ws) = mset [0..<length xs]" by (simp add: sorts_descending_def)
  have "mset (map (\<lambda>i. xs ! i) (srt ws)) = image_mset (\<lambda>i. xs ! i) (mset (srt ws))" by simp
  also have "\<dots> = mset (map (\<lambda>i. xs ! i) [0..<length xs])" by (simp only: m mset_map)
  also have "\<dots> = mset xs" by (simp add: map_nth)
  finally show ?thesis .
qed

lemma zip_reorder:
  assumes "sorts_descending srt"
  shows "zip (map (\<lambda>i. map fst d ! i) (srt (map snd d))) (map (\<lambda>i. map snd d ! i) (srt (map snd d)))
         = map (\<lambda>i. d ! i) (srt (map snd d))"
proof -
  have "\<forall>i \<in> set (srt (map snd d)). i < length d"
    using sorted_indices_in_range(1)[OF assms, of "map snd d"] by simp
  then show ?thesis by (simp add: zip_map_map zip_same_conv_map)
qed


lemma Empirical_init_Inr:
  assumes "Empirical_init srt pvalues log_weights combine = Inr e"
  shows "items pvalues \<noteq> []"
    and "length (items pvalues) \<le> length (default_log_weights (length (items pvalues)) log_weights)"
    and "e = \<lparr> emp_length = length (distribution_of pvalues log_weights combine),
              emp_values = map (\<lambda>i. map fst (distribution_of pvalues log_weights combine) ! i)
                             (srt (map snd (distribution_of pvalues log_weights combine))),
              emp_weights = map (\<lambda>i. map snd (distribution_of pvalues log_weights combine) ! i)
                              (srt (map snd (distribution_of pvalues log_weights combine))),
              cache_mean = None, cache_mean_unweighted = None,
              cache_variance = None, cache_variance_unweighted = None \<rparr>"
  using assms by (auto simp: Empirical_init_def Let_def split: if_splits)

lemma Empirical_init_succeeds:
  assumes "items pvalues \<noteq> []"
    and "length (items pvalues) \<le> length (default_log_weights (length (items pvalues)) log_weights)"
    and "is_tensor pvalues \<or> \<not> combine \<or> length (items pvalues) = 1"
  shows "\<exists>e. Empirical_init srt pvalues log_weights combine = Inr e"
  using assms by (auto simp: Empirical_init_def Let_def normalize_def)

lemma Empirical_entries:
  assumes srt: "sorts_descending srt" and e: "Empirical_init srt pvalues log_weights combine = Inr e"
  shows "mset (zip (emp_values e) (emp_weights e)) = mset (distribution_of pvalues log_weights combine)"
    and "mset (emp_values e) = mset (map fst (distribution_of pvalues log_weights combine))"
    and "mset (emp_weights e) = mset (map snd (distribution_of pvalues log_weights combine))"
    and "length (emp_values e) = emp_length e"
    and "length (emp_weights e) = emp_length e"
    and "emp_length e = length (distribution_of pvalues log_weights combine)"
    and "sorted_wrt (\<lambda>a b. b \<le> a) (emp_weights e)"
proof -
  let ?d = "distribution_of pvalues log_weights combine"
  note E = Empirical_init_Inr(3)[OF e]
  have V: "emp_values e = map (\<lambda>i. map fst ?d ! i) (srt (map snd ?d))" by (subst E) simp
  have W: "emp_weights e = map (\<lambda>i. map snd ?d ! i) (srt (map snd ?d))" by (subst E) simp
  show L: "emp_length e = length ?d" by (subst E) simp
  have z: "zip (emp_values e) (emp_weights e) = map (\<lambda>i. ?d ! i) (srt (map snd ?d))"
    unfolding V W by (rule zip_reorder[OF srt])
  show "mset (zip (emp_values e) (emp_weights e)) = mset ?d"
    unfolding z by (rule mset_reorder[OF srt]) simp
  show "mset (emp_values e) = mset (map fst ?d)"
    unfolding V by (rule mset_reorder[OF srt]) simp
  show "mset (emp_weights e) = mset (map snd ?d)"
    unfolding W by (rule mset_reorder[OF srt]) simp
  show "length (emp_values e) = emp_length e"
    unfolding V L by (simp add: sorted_indices_in_range(2)[OF srt])
  show "length (emp_weights e) = emp_length e"
    unfolding W L by (simp add: sorted_indices_in_range(2)[OF srt])
  show "sorted_wrt (\<lambda>a b. b \<le> a) (emp_weights e)"
    unfolding W using srt by (simp add: sorts_descending_def)
qed

lemma sum_distribution_of:
  assumes "length (items pvalues) \<le> length (default_log_weights (length (items pvalues)) log_weights)"
  shows "sum_list (map snd (distribution_of pvalues log_weights combine))
         = sum_list (take (length (items pvalues)) (normalize (default_log_weights (length (items pvalues)) log_weights)))"
proof -
  let ?ws = "normalize (default_log_weights (length (items pvalues)) log_weights)"
  have t: "map snd (zip (items pvalues) ?ws) = take (length (items pvalues)) ?ws"
    using assms by (simp add: map_snd_zip_take min_def)
  have "sum_list (map snd (foldl add_value [] (zip (items pvalues) ?ws)))
        = sum_list (map snd (zip (items pvalues) ?ws))"
    using foldl_add_value[of "[]" "zip (items pvalues) ?ws"] by simp
  then show ?thesis unfolding distribution_of_def aggregate_def using t by simp
qed


lemma sum_list_emp_weights:
  assumes srt: "sorts_descending srt" and e: "Empirical_init srt pvalues log_weights combine = Inr e"
  shows "sum_list (emp_weights e)
         = sum_list (take (length (items pvalues)) (normalize (default_log_weights (length (items pvalues)) log_weights)))"
proof -
  have "sum_list (emp_weights e) = sum_mset (mset (emp_weights e))" by (simp add: sum_mset_sum_list)
  also have "\<dots> = sum_list (map snd (distribution_of pvalues log_weights combine))"
    by (simp only: Empirical_entries(3)[OF srt e] sum_mset_sum_list)
  also note sum_distribution_of[OF Empirical_init_Inr(2)[OF e]]
  finally show ?thesis .
qed

lemma normalize_zeros3: "normalize [0, 0, 0] = [1 / 3, 1 / 3, 1 / 3]"
  by (simp add: normalize_def logsumexp_def exp_minus)

lemma distribution_of_combine:
  fixes vs :: "'a list"
  assumes "length vs \<le> length (default_log_weights (length vs) log_weights)"
  shows "distinct (map fst (distribution_of (Tensors vs) log_weights True))"
    and "fst ` set (distribution_of (Tensors vs) log_weights True) = set vs"
    and "map_of (distribution_of (Tensors vs) log_weights True) =
           (\<lambda>v. if v \<in> set vs
                then Some (sum_list (map snd (filter (\<lambda>p. fst p = v)
                             (zip vs (normalize (default_log_weights (length vs) log_weights))))))
                else None)"
proof -
  let ?ws = "normalize (default_log_weights (length vs) log_weights)"
  have d: "distribution_of (Tensors vs) log_weights True = foldl add_value [] (zip vs ?ws)"
    by (simp add: distribution_of_def aggregate_def)
  have k: "fst ` set (zip vs ?ws) = set vs"
    using assms by (metis length_normalize map_fst_zip_take min.absorb1 set_map take_all order_refl)
  show "distinct (map fst (distribution_of (Tensors vs) log_weights True))"
    unfolding d using foldl_add_value[of "[]" "zip vs ?ws"] by simp
  show "fst ` set (distribution_of (Tensors vs) log_weights True) = set vs"
    unfolding d using foldl_add_value[of "[]" "zip vs ?ws"] k by simp
  show "map_of (distribution_of (Tensors vs) log_weights True) =
           (\<lambda>v. if v \<in> set vs
                then Some (sum_list (map snd (filter (\<lambda>p. fst p = v) (zip vs ?ws))))
                else None)"
    unfolding d by (rule ext) (simp add: map_of_foldl_add_value k)
qed

lemma normalize_example: "normalize [ln (1 / 4), ln (1 / 4), ln (1 / 2)] = [1 / 4, 1 / 4, 1 / 2]"
proof -
  have "logsumexp [ln (1 / 4), ln (1 / 4), ln (1 / 2)] = ln ((1 / 4 + 1 / 4 + 1 / 2) :: real)"
    unfolding logsumexp_def by (simp only: list.map sum_list.Cons sum_list.Nil exp_ln) simp
  then have "logsumexp [ln (1 / 4), ln (1 / 4), ln (1 / 2)] = 0" by simp
  then show ?thesis unfolding normalize_def by (simp del: ln_divide_pos)
qed

lemma distribution_of_example:
  "distribution_of (Tensors [1 :: real, 1, 2]) (Some [ln (1 / 4), ln (1 / 4), ln (1 / 2)]) True
   = [(1, 1 / 2), (2, 1 / 2)]"
  by (simp add: distribution_of_def aggregate_def default_log_weights_def normalize_example
      add_value_def)

lemma foldl_plus: "foldl (\<lambda>t i. t + f i) a is = (a :: real) + sum_list (map f is)"
  by (induction "is" arbitrary: a) simp_all


lemma Empirical_expectation_cache [simp]:
  "Empirical_expectation (e\<lparr>cache_mean := c\<rparr>) f = Empirical_expectation e f"
  "Empirical_expectation (e\<lparr>cache_variance := c\<rparr>) f = Empirical_expectation e f"
  by (simp_all add: Empirical_expectation_def)



lemma Empirical_init_caches:
  assumes "Empirical_init srt pvalues log_weights combine = Inr e"
  shows "cache_mean e = None" "cache_variance e = None"
    "cache_mean_unweighted e = None" "cache_variance_unweighted e = None"
  by (subst Empirical_init_Inr(3)[OF assms], simp)+

lemma Empirical_mean_unweighted_fresh:
  assumes "cache_mean_unweighted e = None"
  shows "Empirical_mean_unweighted e =
           (sum_list (map (\<lambda>i. emp_values e ! i) [0..<emp_length e]) / real (emp_length e),
            e\<lparr>cache_mean_unweighted :=
                Some (sum_list (map (\<lambda>i. emp_values e ! i) [0..<emp_length e]) / real (emp_length e))\<rparr>)"
  using assms by (simp add: Empirical_mean_unweighted_def Let_def foldl_plus)

lemma Empirical_variance_unweighted_fresh:
  assumes "cache_mean_unweighted e = None" "cache_variance_unweighted e = None"
  shows "fst (Empirical_variance_unweighted e) =
           sum_list (map (\<lambda>i. (emp_values e ! i - fst (Empirical_mean_unweighted e))\<^sup>2)
                      [0..<emp_length e]) / real (emp_length e)"
  using assms
  by (simp add: Empirical_variance_unweighted_def Empirical_mean_unweighted_fresh Let_def foldl_plus)

lemma map_nth_length: "length xs = n \<Longrightarrow> map (\<lambda>i. g (xs ! i)) [0..<n] = map g xs"
  by (auto simp: list_eq_iff_nth_eq)

lemma distribution_of_uniform_example:
  "distribution_of (Tensors [1 :: real, 1, 2]) None True = [(1, 2 / 3), (2, 1 / 3)]"
proof -
  have "normalize (replicate 3 (- ln 3)) = [1 / 3, 1 / 3, 1 / (3 :: real)]"
    by (simp add: normalize_def logsumexp_def exp_minus numeral_3_eq_3)
  then show ?thesis
    by (simp add: distribution_of_def aggregate_def default_log_weights_def add_value_def
        numeral_3_eq_3)
qed


text \<open>
  C3, as the claim states it, fails for a log-weight vector with more entries than there
  are values: the constructor normalizes all of them and stores the first ones only. With
  two values and the log-weights \<open>[0, 0, 0]\<close> the stored weights are \<open>1/3\<close> and \<open>1/3\<close>.
\<close>

theorem Empirical_weights_extra_log_weights:
  "\<exists>e. Empirical_init stable_sort_indices (Tensors [1 :: real, 2]) (Some [0, 0, 0]) False = Inr e
       \<and> sum_list (emp_weights e) = 2 / 3"
proof -
  obtain e where e: "Empirical_init stable_sort_indices (Tensors [1 :: real, 2]) (Some [0, 0, 0]) False = Inr e"
    using Empirical_init_succeeds[of "Tensors [1 :: real, 2]" "Some [0, 0, 0]" False stable_sort_indices]
    by (auto simp: default_log_weights_def)
  have "sum_list (emp_weights e) = 2 / 3"
    using sum_list_emp_weights[OF stable_sort_indices_sorts e]
    by (simp add: default_log_weights_def normalize_zeros3)
  with e show ?thesis by blast
qed

text \<open>
  C3, amended. For every log-weight vector with as many entries as there are values (and
  for the uniform default), the constructor normalizes the weights as
  \<open>exp (log_weights - logsumexp log_weights)\<close>, and the stored weights sum to 1. Without
  duplicate combination on tensors, the stored weights are the normalized ones, reordered.
\<close>

theorem Empirical_weights_sum_to_one:
  assumes srt: "sorts_descending srt" and e: "Empirical_init srt pvalues log_weights combine = Inr e"
    and len: "log_weights = None \<or> (\<exists>lw. log_weights = Some lw \<and> length lw = length (items pvalues))"
  shows "sum_list (emp_weights e) = 1
       \<and> (is_tensor pvalues \<and> \<not> combine \<longrightarrow>
            mset (emp_weights e) = mset (normalize (default_log_weights (length (items pvalues)) log_weights)))"
proof -
  let ?lw = "default_log_weights (length (items pvalues)) log_weights"
  have n: "length ?lw = length (items pvalues)" using len by (auto simp: default_log_weights_def)
  have ne: "?lw \<noteq> []" using Empirical_init_Inr(1)[OF e] n by auto
  have "sum_list (emp_weights e) = sum_list (normalize ?lw)"
    using sum_list_emp_weights[OF srt e] n by simp
  then have one: "sum_list (emp_weights e) = 1" by (simp add: sum_list_normalize[OF ne])
  have "is_tensor pvalues \<and> \<not> combine \<longrightarrow> mset (emp_weights e) = mset (normalize ?lw)"
  proof
    assume "is_tensor pvalues \<and> \<not> combine"
    then have "map snd (distribution_of pvalues log_weights combine) = normalize ?lw"
      using n by (simp add: distribution_of_def aggregate_def)
    then show "mset (emp_weights e) = mset (normalize ?lw)"
      by (simp only: Empirical_entries(3)[OF srt e])
  qed
  with one show ?thesis ..
qed

theorem Empirical_weights_sum_to_one_witness:
  "sorts_descending stable_sort_indices
   \<and> (\<exists>e. Empirical_init stable_sort_indices (Tensors [1 :: real, 2]) (Some [0, 0]) False = Inr e
          \<and> sum_list (emp_weights e) = 1)"
proof -
  obtain e where e: "Empirical_init stable_sort_indices (Tensors [1 :: real, 2]) (Some [0, 0]) False = Inr e"
    using Empirical_init_succeeds[of "Tensors [1 :: real, 2]" "Some [0, 0]" False stable_sort_indices]
    by (auto simp: default_log_weights_def)
  have "sum_list (emp_weights e) = 1"
    using Empirical_weights_sum_to_one[OF stable_sort_indices_sorts e] by simp
  with e stable_sort_indices_sorts show ?thesis by blast
qed

text \<open>
  C9. The stored weights are in descending order: for all indices \<open>i < j\<close> of the stored
  entries, \<open>weights[i] \<ge> weights[j]\<close>; there are as many values and weights as \<open>length\<close>
  says, and the stored pairs \<open>(values[i], weights[i])\<close> are the pairs of the dictionary
  before the sort, each as often.
\<close>

theorem Empirical_sorted_by_weight:
  assumes srt: "sorts_descending srt" and e: "Empirical_init srt pvalues log_weights combine = Inr e"
  shows "(\<forall>i j. i < j \<and> j < emp_length e \<longrightarrow> emp_weights e ! j \<le> emp_weights e ! i)
       \<and> length (emp_values e) = emp_length e
       \<and> length (emp_weights e) = emp_length e
       \<and> mset (zip (emp_values e) (emp_weights e)) = mset (distribution_of pvalues log_weights combine)"
proof -
  note E = Empirical_entries[OF srt e]
  have "\<forall>i j. i < j \<and> j < emp_length e \<longrightarrow> emp_weights e ! j \<le> emp_weights e ! i"
    using E(7) E(5) by (simp add: sorted_wrt_iff_nth_less)
  with E(4) E(5) E(1) show ?thesis by blast
qed

theorem Empirical_sorted_by_weight_witness:
  "sorts_descending stable_sort_indices
   \<and> (\<exists>e. Empirical_init stable_sort_indices (Tensors [1 :: real, 1, 2]) None True = Inr e
        \<and> length (emp_weights e) = 2
        \<and> emp_weights e ! 1 \<le> emp_weights e ! 0
        \<and> mset (zip (emp_values e) (emp_weights e)) = {#(1, 2 / 3), (2, 1 / 3)#})"
proof -
  obtain e :: "real Empirical"
    where e: "Empirical_init stable_sort_indices (Tensors [1, 1, 2]) None True = Inr e"
    using Empirical_init_succeeds[of "Tensors [1 :: real, 1, 2]" None True stable_sort_indices]
    by (auto simp: default_log_weights_def)
  note t = Empirical_sorted_by_weight[OF stable_sort_indices_sorts e]
  have l: "emp_length e = 2"
    using Empirical_entries(6)[OF stable_sort_indices_sorts e]
    by (simp add: distribution_of_uniform_example)
  from t l have "length (emp_weights e) = 2" by simp
  moreover from t l have "emp_weights e ! 1 \<le> emp_weights e ! 0" by simp
  moreover from t have "mset (zip (emp_values e) (emp_weights e)) = {#(1, 2 / 3), (2, 1 / 3)#}"
    by (simp add: distribution_of_uniform_example)
  ultimately show ?thesis using e stable_sort_indices_sorts by blast
qed

text \<open>
  C2. With \<open>combine_duplicates\<close>, the stored values are the distinct values of the input,
  each once, and the weight stored with a value is the sum of the normalized weights of
  the input entries equal to it. The values \<open>[1, 1, 2]\<close> with the weights
  \<open>[0.25, 0.25, 0.5]\<close> give the two entries \<open>1: 0.5\<close> and \<open>2: 0.5\<close>.
\<close>

theorem Empirical_combine_duplicates:
  assumes srt: "sorts_descending srt" and e: "Empirical_init srt (Tensors vs) log_weights True = Inr e"
  shows "distinct (emp_values e)
       \<and> set (emp_values e) = set vs
       \<and> map_of (zip (emp_values e) (emp_weights e)) =
           (\<lambda>v. if v \<in> set vs
                then Some (sum_list (map snd (filter (\<lambda>p. fst p = v)
                             (zip vs (normalize (default_log_weights (length vs) log_weights))))))
                else None)
       \<and> (\<exists>e'. Empirical_init srt (Tensors [1 :: real, 1, 2])
                  (Some [ln (1 / 4), ln (1 / 4), ln (1 / 2)]) True = Inr e'
               \<and> emp_length e' = 2
               \<and> mset (zip (emp_values e') (emp_weights e')) = {#(1, 1 / 2), (2, 1 / 2)#})"
proof -
  let ?d = "distribution_of (Tensors vs) log_weights True"
  note E = Empirical_entries[OF srt e]
  have len: "length vs \<le> length (default_log_weights (length vs) log_weights)"
    using Empirical_init_Inr(2)[OF e] by simp
  note D = distribution_of_combine[OF len]
  have dv: "distinct (emp_values e)"
    using D(1) E(2) by (metis mset_eq_imp_distinct_iff)
  have sv: "set (emp_values e) = set vs"
    using D(2) arg_cong[OF E(2), of set_mset] by simp
  have dz: "distinct (map fst (zip (emp_values e) (emp_weights e)))"
    using dv E(4) E(5) by (simp add: map_fst_zip)
  have "set (zip (emp_values e) (emp_weights e)) = set ?d"
    using arg_cong[OF E(1), of set_mset] by simp
  with dz D(1) have "map_of (zip (emp_values e) (emp_weights e)) = map_of ?d"
    by (simp add: map_of_inject_set)
  with D(3) have mo: "map_of (zip (emp_values e) (emp_weights e)) =
           (\<lambda>v. if v \<in> set vs
                then Some (sum_list (map snd (filter (\<lambda>p. fst p = v)
                             (zip vs (normalize (default_log_weights (length vs) log_weights))))))
                else None)" by simp
  obtain e' where e': "Empirical_init srt (Tensors [1 :: real, 1, 2])
                  (Some [ln (1 / 4), ln (1 / 4), ln (1 / 2)]) True = Inr e'"
    using Empirical_init_succeeds[of "Tensors [1 :: real, 1, 2]"
        "Some [ln (1 / 4), ln (1 / 4), ln (1 / 2)]" True srt]
    by (auto simp: default_log_weights_def)
  note E' = Empirical_entries[OF srt e']
  have "emp_length e' = 2" using E'(6) by (simp add: distribution_of_example)
  moreover have "mset (zip (emp_values e') (emp_weights e')) = {#(1, 1 / 2), (2, 1 / 2)#}"
    using E'(1) by (simp add: distribution_of_example)
  ultimately show ?thesis using dv sv mo e' by blast
qed

theorem Empirical_combine_duplicates_witness:
  "sorts_descending stable_sort_indices
   \<and> (\<exists>e. Empirical_init stable_sort_indices (Tensors [1 :: real, 1, 2])
                  (Some [ln (1 / 4), ln (1 / 4), ln (1 / 2)]) True = Inr e
        \<and> distinct (emp_values e) \<and> set (emp_values e) = {1, 2}
        \<and> map_of (zip (emp_values e) (emp_weights e)) 1 = Some (1 / 2)
        \<and> map_of (zip (emp_values e) (emp_weights e)) 2 = Some (1 / 2))"
proof -
  obtain e where e: "Empirical_init stable_sort_indices (Tensors [1 :: real, 1, 2])
                  (Some [ln (1 / 4), ln (1 / 4), ln (1 / 2)]) True = Inr e"
    using Empirical_init_succeeds[of "Tensors [1 :: real, 1, 2]"
        "Some [ln (1 / 4), ln (1 / 4), ln (1 / 2)]" True stable_sort_indices]
    by (auto simp: default_log_weights_def)
  note t = Empirical_combine_duplicates[OF stable_sort_indices_sorts e]
  from t have "distinct (emp_values e)" "set (emp_values e) = {1, 2}" by auto
  moreover from t have "map_of (zip (emp_values e) (emp_weights e)) 1 = Some (1 / 2)"
    by (simp add: default_log_weights_def normalize_example)
  moreover from t have "map_of (zip (emp_values e) (emp_weights e)) 2 = Some (1 / 2)"
    by (simp add: default_log_weights_def normalize_example)
  ultimately show ?thesis using e stable_sort_indices_sorts by blast
qed



text \<open>
  C10. The unweighted mean and variance are averages over the stored entries: the sums
  run over the stored values and are divided by the number of entries of the dictionary
  after the aggregation, which with \<open>combine_duplicates\<close> is the number of distinct
  values, not the number of values supplied. With \<open>combine_duplicates\<close> on \<open>[1, 1, 2]\<close>
  there are two entries and the unweighted mean is \<open>(1 + 2) / 2 = 1.5\<close>, not \<open>4/3\<close>.
\<close>

theorem Empirical_unweighted_over_entries:
  fixes e :: "real Empirical"
  assumes srt: "sorts_descending srt" and e: "Empirical_init srt pvalues log_weights combine = Inr e"
  shows "fst (Empirical_mean_unweighted e)
           = sum_list (emp_values e) / real (length (distribution_of pvalues log_weights combine))
       \<and> fst (Empirical_variance_unweighted e)
           = (\<Sum>v\<leftarrow>emp_values e. (v - fst (Empirical_mean_unweighted e))\<^sup>2)
             / real (length (distribution_of pvalues log_weights combine))
       \<and> (is_tensor pvalues \<and> combine \<longrightarrow> length (distribution_of pvalues log_weights combine) = card (set (items pvalues)))
       \<and> (\<exists>e'. Empirical_init srt (Tensors [1, 1, 2]) None True = Inr e'
               \<and> emp_length e' = 2
               \<and> fst (Empirical_mean_unweighted e') = 3 / 2
               \<and> fst (Empirical_variance_unweighted e') = 1 / 4)"
proof -
  have gen: "fst (Empirical_mean_unweighted x)
           = sum_list (emp_values x) / real (length (distribution_of p l c))
       \<and> fst (Empirical_variance_unweighted x)
           = (\<Sum>v\<leftarrow>emp_values x. (v - fst (Empirical_mean_unweighted x))\<^sup>2)
             / real (length (distribution_of p l c))"
    if x: "Empirical_init srt p l c = Inr x" for x :: "real Empirical" and p l c
  proof -
    note E = Empirical_entries[OF srt x] and c = Empirical_init_caches[OF x]
    have "fst (Empirical_mean_unweighted x) = sum_list (emp_values x) / real (emp_length x)"
      using map_nth_length[OF E(4), of "\<lambda>v. v"]
      by (simp add: Empirical_mean_unweighted_fresh[OF c(3)])
    moreover have "fst (Empirical_variance_unweighted x)
           = (\<Sum>v\<leftarrow>emp_values x. (v - fst (Empirical_mean_unweighted x))\<^sup>2) / real (emp_length x)"
      using map_nth_length[OF E(4), of "\<lambda>v. (v - fst (Empirical_mean_unweighted x))\<^sup>2"]
      by (simp only: Empirical_variance_unweighted_fresh[OF c(3) c(4)])
    ultimately show ?thesis by (simp only: E(6))
  qed
  have card: "is_tensor pvalues \<and> combine \<longrightarrow> length (distribution_of pvalues log_weights combine) = card (set (items pvalues))"
  proof
    assume a: "is_tensor pvalues \<and> combine"
    then obtain vs where pvalues: "pvalues = Tensors vs" by (cases pvalues) auto
    have len: "length vs \<le> length (default_log_weights (length vs) log_weights)"
      using Empirical_init_Inr(2)[OF e] pvalues by simp
    note D = distribution_of_combine[OF len]
    have "length (distribution_of (Tensors vs) log_weights True)
          = card (set (map fst (distribution_of (Tensors vs) log_weights True)))"
      using distinct_card[OF D(1)] by simp
    also have "\<dots> = card (set vs)" using D(2) by simp
    finally show "length (distribution_of pvalues log_weights combine) = card (set (items pvalues))" using a pvalues by simp
  qed
  obtain e' :: "real Empirical" where e': "Empirical_init srt (Tensors [1, 1, 2]) None True = Inr e'"
    using Empirical_init_succeeds[of "Tensors [1 :: real, 1, 2]" None True srt]
    by (auto simp: default_log_weights_def)
  note E' = Empirical_entries[OF srt e'] and g' = gen[OF e']
  have s': "sum_list (emp_values e') = 3"
    using arg_cong[OF E'(2), of sum_mset] by (simp add: sum_mset_sum_list distribution_of_uniform_example)
  have m': "fst (Empirical_mean_unweighted e') = 3 / 2"
    using g' s' by (simp add: distribution_of_uniform_example)
  have "(\<Sum>v\<leftarrow>emp_values e'. (v - 3 / 2)\<^sup>2) = sum_mset (image_mset (\<lambda>v. (v - 3 / 2)\<^sup>2) (mset (emp_values e')))"
    by (metis mset_map sum_mset_sum_list)
  also have "\<dots> = 1 / 2" unfolding E'(2) by (simp add: distribution_of_uniform_example power2_eq_square)
  finally have "fst (Empirical_variance_unweighted e') = 1 / 4"
    using g' m' by (simp add: distribution_of_uniform_example)
  moreover have "emp_length e' = 2" using E'(6) by (simp add: distribution_of_uniform_example)
  ultimately show ?thesis using gen[OF e] card e' m' by blast
qed

theorem Empirical_unweighted_over_entries_witness:
  "sorts_descending stable_sort_indices
   \<and> (\<exists>e. Empirical_init stable_sort_indices (Tensors [1 :: real, 1, 2]) None True = Inr e
        \<and> fst (Empirical_mean_unweighted e) = 3 / 2
        \<and> length (distribution_of (Tensors [1 :: real, 1, 2]) None True) = 2
        \<and> card (set [1 :: real, 1, 2]) = 2)"
proof -
  obtain e :: "real Empirical"
    where e: "Empirical_init stable_sort_indices (Tensors [1, 1, 2]) None True = Inr e"
    using Empirical_init_succeeds[of "Tensors [1 :: real, 1, 2]" None True stable_sort_indices]
    by (auto simp: default_log_weights_def)
  note t = Empirical_unweighted_over_entries[OF stable_sort_indices_sorts e]
  have s: "sum_list (emp_values e) = 3"
    using arg_cong[OF Empirical_entries(2)[OF stable_sort_indices_sorts e], of sum_mset]
    by (simp add: sum_mset_sum_list distribution_of_uniform_example)
  from t s have "fst (Empirical_mean_unweighted e) = 3 / 2"
    by (simp add: distribution_of_uniform_example)
  moreover from t have "length (distribution_of (Tensors [1 :: real, 1, 2]) None True) = card (set [1 :: real, 1, 2])"
    by simp
  moreover have "length (distribution_of (Tensors [1 :: real, 1, 2]) None True) = 2"
    by (simp add: distribution_of_uniform_example)
  ultimately show ?thesis using e stable_sort_indices_sorts by (simp add: exI[of _ e])
qed

end
